theory Spec2Isabelle
  imports Main "HOL-Library.Sublist"
begin

section \<open>Python strings\<close>

text \<open>
  A Python \<open>str\<close> is a sequence of code points. It is modelled as a \<open>string\<close> whose
  characters stand for the code points 0..255; \<open>ord\<close> reads the code point.
  The character classes the script relies on (\<open>str.lower\<close>, \<open>str.isprintable\<close>, the regular
  expression classes \<open>\d\<close> and \<open>\s\<close>) are the Unicode ones restricted to that range.
\<close>

definition ord :: "char \<Rightarrow> nat" where
  "ord c = of_char c"

definition lower_char :: "char \<Rightarrow> char" where
  "lower_char c =
     (if (65 \<le> ord c \<and> ord c \<le> 90) \<or> (192 \<le> ord c \<and> ord c \<le> 222 \<and> ord c \<noteq> 215)
      then char_of (ord c + 32) else c)"

text \<open>\<open>s.lower()\<close>\<close>

definition lower :: "string \<Rightarrow> string" where
  "lower s = map lower_char s"

text \<open>\<open>s.endswith(t)\<close> and \<open>t in s\<close>\<close>

definition endswith :: "string \<Rightarrow> string \<Rightarrow> bool" where
  "endswith s t = suffix t s"

definition str_in :: "string \<Rightarrow> string \<Rightarrow> bool" where
  "str_in t s = sublist t s"

text \<open>\<open>s.strip(chars)\<close>\<close>

definition strip :: "string \<Rightarrow> string \<Rightarrow> string" where
  "strip chars s =
     rev (dropWhile (\<lambda>c. c \<in> set chars) (rev (dropWhile (\<lambda>c. c \<in> set chars) s)))"

text \<open>\<open>s.rstrip(chars)\<close>\<close>

definition rstrip :: "string \<Rightarrow> string \<Rightarrow> string" where
  "rstrip chars s = rev (dropWhile (\<lambda>c. c \<in> set chars) (rev s))"

text \<open>
  \<open>re.sub(r"[...]+", repl, s)\<close> for a character class \<open>P\<close>: every maximal run of
  characters of the class is replaced by \<open>repl\<close>.
\<close>

function sub_runs :: "(char \<Rightarrow> bool) \<Rightarrow> string \<Rightarrow> string \<Rightarrow> string" where
  "sub_runs P repl [] = []"
| "sub_runs P repl (c # cs) =
     (if P c then repl @ sub_runs P repl (dropWhile P cs) else c # sub_runs P repl cs)"
  by pat_completeness auto
termination
  by (relation "measure (\<lambda>(P, repl, s). length s)")
     (auto simp: le_imp_less_Suc length_dropWhile_le)

text \<open>The class \<open>\s\<close> of a \<open>str\<close> pattern, on the code points below 256.\<close>

definition is_space :: "char \<Rightarrow> bool" where
  "is_space c = ((9 \<le> ord c \<and> ord c \<le> 13) \<or> (28 \<le> ord c \<and> ord c \<le> 32)
                  \<or> ord c = 133 \<or> ord c = 160)"

text \<open>The class \<open>\d\<close> of a \<open>str\<close> pattern: below 256 the decimal digits are \<open>0\<close>..\<open>9\<close>.\<close>

definition is_digit :: "char \<Rightarrow> bool" where
  "is_digit c = (48 \<le> ord c \<and> ord c \<le> 57)"

text \<open>\<open>ch.isprintable()\<close>: not in a Unicode category "Other" or "Separator", the space apart.\<close>

definition isprintable :: "char \<Rightarrow> bool" where
  "isprintable c = ((32 \<le> ord c \<and> ord c \<le> 126) \<or> (161 \<le> ord c \<and> ord c \<noteq> 173))"

text \<open>The characters of the class \<open>[<>:"/\|?*]\<close>.\<close>

definition illegal_chars :: "char list" where
  "illegal_chars = [CHR ''<'', CHR ''>'', CHR '':'', CHR 0x22, CHR ''/'', CHR 0x5C,
                    CHR ''|'', CHR ''?'', CHR ''*'']"

section \<open>Device cleaning\<close>

definition clean_device_string :: "string \<Rightarrow> string" where
  "clean_device_string s0 =
     (if s0 = [] then ''default''
      else
        let s = filter (\<lambda>ch. 32 \<le> ord ch \<and> ord ch \<le> 126) s0;
            s = filter (\<lambda>ch. ch \<notin> set illegal_chars) s;
            s = sub_runs is_space ''_'' s;
            s = strip ''_'' (sub_runs (\<lambda>ch. ch = CHR ''_'') ''_'' s)
        in if lower s \<in> set ['''', ''default'', ''default_'', ''_default'', ''default_default'']
           then ''default'' else s)"

section \<open>Paths\<close>

text \<open>
  A \<open>pathlib.Path\<close> is the list of its components, the anchor first; \<open>p / c\<close> appends
  the component \<open>c\<close> (a plain name, without separator). Two paths name the same file
  when they are equal.
\<close>

type_synonym path = "string list"

definition path_join :: "path \<Rightarrow> string \<Rightarrow> path" where
  "path_join p c = p @ [c]"

text \<open>\<open>p.name\<close>: the final component.\<close>

definition path_name :: "path \<Rightarrow> string" where
  "path_name p = (if p = [] then [] else last p)"

section \<open>Category detection\<close>

definition SPECIAL_KEYWORDS :: "string list" where
  "SPECIAL_KEYWORDS =
     [''whatsapp'', ''screenshot'', ''scan'',
      ''instagram'', ''facebook'', ''messenger'',
      ''snapchat'', ''tiktok'', ''wechat'', ''telegram'']"

text \<open>The loop over the keywords: the first one found in the name or in the root.\<close>

fun first_keyword :: "string list \<Rightarrow> string \<Rightarrow> string \<Rightarrow> string" where
  "first_keyword [] name root = []"
| "first_keyword (word # ws) name root =
     (if str_in word name \<or> str_in word root then word else first_keyword ws name root)"

definition detect_special_category :: "path \<Rightarrow> string \<Rightarrow> string" where
  "detect_special_category p root =
     (let name = lower (path_name p);
          root = lower root
      in first_keyword SPECIAL_KEYWORDS name root)"

text \<open>\<open>str(n)\<close> for a non-negative \<open>int\<close>, and \<open>int(s)\<close> for a string of decimal digits.\<close>

definition digit_char :: "nat \<Rightarrow> char" where
  "digit_char d = char_of (48 + d)"

function str_nat :: "nat \<Rightarrow> string" where
  "str_nat n = (if n < 10 then [digit_char n] else str_nat (n div 10) @ [digit_char (n mod 10)])"
  by pat_completeness auto
termination
  by (relation "measure id") auto

definition int_of_digits :: "string \<Rightarrow> nat" where
  "int_of_digits s = foldl (\<lambda>a c. 10 * a + (ord c - 48)) 0 s"

text \<open>The format specifications \<open>{n:04d}\<close> and \<open>{n:02d}\<close>: zero-padded to a width.\<close>

definition fmt_d :: "nat \<Rightarrow> nat \<Rightarrow> string" where
  "fmt_d width n = replicate (width - length (str_nat n)) (CHR ''0'') @ str_nat n"

section \<open>File names\<close>

text \<open>
  A name is cut at its last dot. \<open>last_dot name = None\<close> when the name has no dot;
  otherwise it gives the part before the last dot and the part after it.
\<close>

definition last_dot :: "string \<Rightarrow> (string \<times> string) option" where
  "last_dot name =
     (let r = rev name;
          e = takeWhile (\<lambda>c. c \<noteq> CHR ''.'') r
      in case dropWhile (\<lambda>c. c \<noteq> CHR ''.'') r of
           [] \<Rightarrow> None
         | d # b \<Rightarrow> Some (rev b, rev e))"

text \<open>
  \<open>os.path.splitext(filename)[0]\<close> for a name without directory separator: the name
  up to its last dot, unless only dots stand before it.
\<close>

definition splitext_root :: "string \<Rightarrow> string" where
  "splitext_root filename =
     (case last_dot filename of
        None \<Rightarrow> filename
      | Some (b, e) \<Rightarrow> if filter (\<lambda>c. c \<noteq> CHR ''.'') b \<noteq> [] then b else filename)"

text \<open>
  \<open>p.suffix\<close> and \<open>p.stem\<close>: with \<open>i\<close> the index of the last dot of the name, the
  suffix is \<open>name[i:]\<close> and the stem \<open>name[:i]\<close> when \<open>0 < i < len(name) - 1\<close>; otherwise
  the suffix is empty and the stem is the name.
\<close>

definition path_suffix :: "path \<Rightarrow> string" where
  "path_suffix p =
     (case last_dot (path_name p) of
        None \<Rightarrow> []
      | Some (b, e) \<Rightarrow> if b \<noteq> [] \<and> e \<noteq> [] then CHR ''.'' # e else [])"

definition path_stem :: "path \<Rightarrow> string" where
  "path_stem p =
     (case last_dot (path_name p) of
        None \<Rightarrow> path_name p
      | Some (b, e) \<Rightarrow> if b \<noteq> [] \<and> e \<noteq> [] then b else path_name p)"

text \<open>\<open>str(p)\<close> on Windows: the components joined by backslashes.\<close>

fun path_str :: "path \<Rightarrow> string" where
  "path_str [] = []"
| "path_str [c] = c"
| "path_str (c # cs) = c @ CHR 0x5C # path_str cs"

section \<open>Configuration\<close>

text \<open>The configured directories, by their components.\<close>

definition SOURCE_DIR :: path where
  "SOURCE_DIR = [''D:'', ''Sorting_script'', ''output_v3'', ''to_sort'']"

definition OUTPUT_DIR :: path where
  "OUTPUT_DIR = [''D:'', ''Sorting_script'', ''output_v3'', ''sorted'']"

definition IMAGE_EXT :: "string set" where
  "IMAGE_EXT = {''.jpg'', ''.jpeg'', ''.png'', ''.tiff'', ''.heic'', ''.bmp''}"

definition VIDEO_EXT :: "string set" where
  "VIDEO_EXT = {''.mp4'', ''.mov'', ''.avi'', ''.mkv'', ''.3gp'', ''.mpg''}"

section \<open>Dates\<close>

record datetime =
  year :: nat
  month :: nat
  day :: nat
  hour :: nat
  minute :: nat
  second :: nat

definition is_leap :: "nat \<Rightarrow> bool" where
  "is_leap y = (y mod 4 = 0 \<and> (y mod 100 \<noteq> 0 \<or> y mod 400 = 0))"

definition days_in_month :: "nat \<Rightarrow> nat \<Rightarrow> nat" where
  "days_in_month y m =
     (if m = 2 then (if is_leap y then 29 else 28)
      else if m = 4 \<or> m = 6 \<or> m = 9 \<or> m = 11 then 30 else 31)"

text \<open>\<open>datetime(y, m, d)\<close>: \<open>None\<close> stands for the \<open>ValueError\<close> of an invalid date.\<close>

definition mk_datetime :: "nat \<Rightarrow> nat \<Rightarrow> nat \<Rightarrow> datetime option" where
  "mk_datetime y m d =
     (if 1 \<le> y \<and> y \<le> 9999 \<and> 1 \<le> m \<and> m \<le> 12 \<and> 1 \<le> d \<and> d \<le> days_in_month y m
      then Some \<lparr>year = y, month = m, day = d, hour = 0, minute = 0, second = 0\<rparr>
      else None)"

section \<open>Filename date extraction\<close>

text \<open>
  The patterns of \<open>FILENAME_DATE_PATTERNS\<close> are sequences of single-character atoms, each
  belonging to the named group \<open>y\<close>, \<open>m\<close> or \<open>d\<close> or to none. A pattern is the list of
  its alternatives in the order the matcher tries them at one position: the fifth pattern,
  \<open>(IMG|VID)[-_]?...\<close>, has four (each prefix with the greedy optional separator taken
  first, then left out).
\<close>

datatype grp = GY | GM | GD | GNone

type_synonym atom = "grp \<times> (char \<Rightarrow> bool)"

type_synonym pattern = "atom list list"

definition lit :: "string \<Rightarrow> atom list" where
  "lit s = map (\<lambda>ch. (GNone, (\<lambda>c. c = ch))) s"

definition cls :: "string \<Rightarrow> atom list" where
  "cls s = [(GNone, (\<lambda>c. c \<in> set s))]"

text \<open>\<open>(?P<y>20\d{2})\<close>, \<open>(?P<m>\d{2})\<close> and \<open>(?P<d>\d{2})\<close>\<close>

definition y4 :: "atom list" where
  "y4 = [(GY, (\<lambda>c. c = CHR ''2'')), (GY, (\<lambda>c. c = CHR ''0'')), (GY, is_digit), (GY, is_digit)]"

definition m2 :: "atom list" where
  "m2 = [(GM, is_digit), (GM, is_digit)]"

definition d2 :: "atom list" where
  "d2 = [(GD, is_digit), (GD, is_digit)]"

definition FILENAME_DATE_PATTERNS :: "pattern list" where
  "FILENAME_DATE_PATTERNS =
     [[y4 @ cls ''-_.'' @ m2 @ cls ''-_.'' @ d2],
      [d2 @ cls ''-_.'' @ m2 @ cls ''-_.'' @ y4],
      [y4 @ m2 @ d2],
      [d2 @ m2 @ y4],
      [lit ''IMG'' @ cls ''-_'' @ y4 @ m2 @ d2,
       lit ''IMG'' @ y4 @ m2 @ d2,
       lit ''VID'' @ cls ''-_'' @ y4 @ m2 @ d2,
       lit ''VID'' @ y4 @ m2 @ d2]]"

text \<open>Matching one alternative at the start of a string: the matched characters with their groups.\<close>

fun match_here :: "atom list \<Rightarrow> string \<Rightarrow> (grp \<times> char) list option" where
  "match_here [] s = Some []"
| "match_here ((g, P) # atoms) [] = None"
| "match_here ((g, P) # atoms) (c # cs) =
     (if P c then map_option (\<lambda>m. (g, c) # m) (match_here atoms cs) else None)"

fun match_alts :: "pattern \<Rightarrow> string \<Rightarrow> (grp \<times> char) list option" where
  "match_alts [] s = None"
| "match_alts (a # alts) s =
     (case match_here a s of Some m \<Rightarrow> Some m | None \<Rightarrow> match_alts alts s)"

text \<open>\<open>re.search(pattern, name)\<close>: the match at the leftmost position that has one.\<close>

fun re_search :: "pattern \<Rightarrow> string \<Rightarrow> (grp \<times> char) list option" where
  "re_search p [] = match_alts p []"
| "re_search p (c # cs) =
     (case match_alts p (c # cs) of Some m \<Rightarrow> Some m | None \<Rightarrow> re_search p cs)"

text \<open>\<open>match.group(g)\<close>\<close>

definition group :: "grp \<Rightarrow> (grp \<times> char) list \<Rightarrow> string" where
  "group g m = map snd (filter (\<lambda>gc. fst gc = g) m)"

text \<open>
  The loop over the patterns: a pattern that matches but gives an invalid date is passed
  over (\<open>except: pass\<close>) and the next pattern is tried.
\<close>

fun try_patterns :: "pattern list \<Rightarrow> string \<Rightarrow> datetime option" where
  "try_patterns [] name = None"
| "try_patterns (p # ps) name =
     (case re_search p name of
        None \<Rightarrow> try_patterns ps name
      | Some m \<Rightarrow>
          (case mk_datetime (int_of_digits (group GY m)) (int_of_digits (group GM m))
                  (int_of_digits (group GD m)) of
             Some date \<Rightarrow> Some date
           | None \<Rightarrow> try_patterns ps name))"

definition parse_date_from_filename :: "string \<Rightarrow> datetime option" where
  "parse_date_from_filename filename =
     (let name = splitext_root filename in try_patterns FILENAME_DATE_PATTERNS name)"

section \<open>Media files\<close>

text \<open>
  What the metadata reader yields for an image. \<open>date_tag\<close> is the result of reading
  the tags 36867 and 306 and parsing the first non-empty one with \<open>strptime\<close>: \<open>None\<close> when
  both are absent or the parse raises. The other tags are \<open>None\<close> when absent.
  An \<open>XPFilename\<close> value is either a \<open>bytes\<close> object, given by its length and by the
  result of \<open>decode("utf-16le")\<close> (\<open>None\<close> when decoding raises), or some other value,
  given by its \<open>str()\<close>.
\<close>

datatype xp_value = XPBytes nat "string option" | XPStr string

record exif_tags =
  date_tag :: "datetime option"
  make_tag :: "string option"
  model_tag :: "string option"
  description_tag :: "string option"
  document_tag :: "string option"
  xp_filename_tag :: "xp_value option"

text \<open>
  A file met by \<open>os.walk(SOURCE_DIR)\<close>: the directories below \<open>SOURCE_DIR\<close> that lead to
  it and its name, together with what the script reads from it and from its environment:
  the EXIF data (\<open>None\<close> when opening the image or reading its EXIF raises), the SHA-256
  digest of its content, its modification time, whether \<open>shutil.move\<close> raises for it,
  and whether \<open>exiftool\<close>, when run on it, exits with status 0.
\<close>

record media_file =
  subdirs :: "string list"
  file_name :: string
  exif :: "exif_tags option"
  digest :: string
  mtime :: datetime
  move_raises :: bool
  exiftool_ok :: bool

text \<open>\<open>root\<close> as \<open>os.walk\<close> yields it, and \<open>path = Path(root) / file\<close> (the field \<open>file_name\<close> is the source's \<open>file\<close>).\<close>

definition walk_root :: "media_file \<Rightarrow> string" where
  "walk_root f = path_str (SOURCE_DIR @ subdirs f)"

definition file_path :: "media_file \<Rightarrow> path" where
  "file_path f = path_join (SOURCE_DIR @ subdirs f) (file_name f)"

section \<open>EXIF reading\<close>

text \<open>\<open>exif.get(tag, "")\<close>\<close>

definition tag_or_empty :: "string option \<Rightarrow> string" where
  "tag_or_empty t = (case t of None \<Rightarrow> [] | Some s \<Rightarrow> s)"

definition get_exif_data :: "media_file \<Rightarrow> datetime option \<times> string" where
  "get_exif_data f =
     (case exif f of
        None \<Rightarrow> (None, ''default'')
      | Some tags \<Rightarrow>
          let date = date_tag tags;
              make = clean_device_string (tag_or_empty (make_tag tags));
              model = clean_device_string (tag_or_empty (model_tag tags));
              device = (if make = ''default'' \<or> model = ''default'' then ''default''
                        else strip ''_'' (make @ ''_'' @ model))
          in (date, clean_device_string device))"

section \<open>Best date\<close>

text \<open>The tail of \<open>get_best_date\<close>: the date of the file name, else the modification time.\<close>

definition filename_or_mtime :: "media_file \<Rightarrow> string \<Rightarrow> datetime \<times> string" where
  "filename_or_mtime f device =
     (case parse_date_from_filename (path_name (file_path f)) of
        Some filename_date \<Rightarrow> (filename_date, device)
      | None \<Rightarrow> (mtime f, device))"

definition get_best_date :: "media_file \<Rightarrow> datetime \<times> string" where
  "get_best_date f =
     (let ext = lower (path_suffix (file_path f))
      in if ext \<in> IMAGE_EXT
         then (case get_exif_data f of
                 (Some exif_date, device) \<Rightarrow> (exif_date, device)
               | (None, device) \<Rightarrow> filename_or_mtime f device)
         else filename_or_mtime f ''default'')"

section \<open>Metadata filename\<close>

definition clean_filename_text :: "string \<Rightarrow> string" where
  "clean_filename_text text0 =
     (if text0 = [] then []
      else
        let text = filter isprintable text0;
            text = filter (\<lambda>ch. ch \<notin> set illegal_chars) text
        in strip '' .'' text)"

text \<open>\<open>if tag:\<close> for a tag that may be absent.\<close>

definition tag_set :: "string option \<Rightarrow> bool" where
  "tag_set t = (case t of None \<Rightarrow> False | Some s \<Rightarrow> s \<noteq> [])"

text \<open>
  The \<open>XPFilename\<close> branch: \<open>None\<close> when the branch returns nothing (the tag is absent or
  empty, decoding raises, or the cleaned name is empty).
\<close>

definition xp_name :: "xp_value option \<Rightarrow> string \<Rightarrow> string option" where
  "xp_name xpfn sfx =
     (case xpfn of
        None \<Rightarrow> None
      | Some (XPBytes n dec) \<Rightarrow>
          if n = 0 then None
          else (case dec of
                  None \<Rightarrow> None
                | Some d \<Rightarrow>
                    let decoded = rstrip [CHR 0x00] d;
                        name = clean_filename_text decoded
                    in if name \<noteq> []
                       then Some (if \<not> endswith (lower name) (lower sfx) then name @ sfx else name)
                       else None)
      | Some (XPStr d) \<Rightarrow>
          if d = [] then None
          else
            let decoded = d;
                name = clean_filename_text decoded
            in if name \<noteq> []
               then Some (if \<not> endswith (lower name) (lower sfx) then name @ sfx else name)
               else None)"

definition get_metadata_filename :: "media_file \<Rightarrow> string" where
  "get_metadata_filename f =
     (let path = file_path f
      in case exif f of
           None \<Rightarrow> path_name path
         | Some tags \<Rightarrow>
             let desc = description_tag tags;
                 name = clean_filename_text (tag_or_empty desc)
             in if tag_set desc \<and> name \<noteq> [] then name @ path_suffix path
                else
                  let doc = document_tag tags;
                      name = clean_filename_text (tag_or_empty doc)
                  in if tag_set doc \<and> name \<noteq> [] then name @ path_suffix path
                     else (case xp_name (xp_filename_tag tags) (path_suffix path) of
                             Some name \<Rightarrow> name
                           | None \<Rightarrow> path_name path))"

section \<open>The file system, the audit log and the external tool\<close>

text \<open>
  A cell of a CSV row is a Python value, which the CSV writer renders on output.
\<close>

datatype pyval = Str string | PathV path | DateV datetime | BoolV bool

text \<open>The truth value Python gives a value in a condition: a string is true when not empty.\<close>

fun truthy :: "pyval \<Rightarrow> bool" where
  "truthy (Str s) = (s \<noteq> [])"
| "truthy (PathV p) = True"
| "truthy (DateV d) = True"
| "truthy (BoolV b) = b"

text \<open>
  The state the script acts on: the paths that exist on disk (files and directories), the
  rows of \<open>LOG_FILE\<close> (\<open>None\<close> when the file does not exist), and the record of the calls
  made so far: the \<open>exiftool\<close> invocations that rewrite dates, and the completed
  \<open>shutil.move\<close> calls as pairs of source and destination. A path exists when it is in
  \<open>disk\<close>. What the script prints is not part of the state.
\<close>

record world =
  disk :: "path list"
  log_file :: "pyval list list option"
  exiftool_calls :: "(path \<times> datetime) list"
  moves :: "(path \<times> path) list"

section \<open>Timestamp repair\<close>

text \<open>
  \<open>EXIFTOOL_EXISTS\<close> is computed once when the module is loaded; it is the first
  argument. \<open>tool_ok\<close> says whether the invocation, if made, exits with status 0 (an
  exception counts as failure).
\<close>

definition apply_correct_dates :: "bool \<Rightarrow> bool \<Rightarrow> path \<Rightarrow> datetime \<Rightarrow> world \<Rightarrow> bool \<times> world" where
  "apply_correct_dates EXIFTOOL_EXISTS tool_ok filepath date w =
     (if \<not> EXIFTOOL_EXISTS then (False, w)
      else (tool_ok, w\<lparr>exiftool_calls := exiftool_calls w @ [(filepath, date)]\<rparr>))"

section \<open>CSV log file\<close>

definition HEADER :: "pyval list" where
  "HEADER = [Str ''Source'', Str ''Destination'', Str ''Device'', Str ''Category'',
             Str ''Date'', Str ''Hash'', Str ''Duplicate'', Str ''TimestampFixed'']"

text \<open>\<open>open(LOG_FILE, "a")\<close> creates an empty file when there is none and keeps the rows otherwise.\<close>

definition open_append :: "world \<Rightarrow> world" where
  "open_append w = (case log_file w of None \<Rightarrow> w\<lparr>log_file := Some []\<rparr> | Some rows \<Rightarrow> w)"

text \<open>
  \<open>init_log\<close> opens the file for appending first and tests \<open>os.path.exists(LOG_FILE)\<close>
  inside that block; the header is written, to the file reopened with mode \<open>"w"\<close>, only
  when the test finds no file.
\<close>

definition init_log :: "world \<Rightarrow> world" where
  "init_log w0 =
     (let file_exists = (log_file w0 \<noteq> None);
          w = open_append w0
      in if log_file w = None
         then w\<lparr>log_file := Some [HEADER]\<rparr>
         else w)"

definition log_move ::
  "pyval \<Rightarrow> pyval \<Rightarrow> pyval \<Rightarrow> pyval \<Rightarrow> pyval \<Rightarrow> pyval \<Rightarrow> pyval \<Rightarrow> pyval \<Rightarrow> world \<Rightarrow> world" where
  "log_move src dest device category date filehash duplicate timestamp_fixed w0 =
     (let w = open_append w0;
          row = [src, dest, device, category, date, filehash, duplicate,
                 Str (if truthy timestamp_fixed then ''YES'' else ''NO'')]
      in w\<lparr>log_file := Some ((case log_file w of None \<Rightarrow> [] | Some rows \<Rightarrow> rows) @ [row])\<rparr>)"

section \<open>Folder creation\<close>

text \<open>The directory \<open>make_date_path\<close> names.\<close>

definition date_path :: "path \<Rightarrow> string \<Rightarrow> datetime \<Rightarrow> string \<Rightarrow> path" where
  "date_path base_dir device date category =
     (let year = fmt_d 4 (year date);
          month = fmt_d 2 (month date);
          day = fmt_d 2 (day date)
      in if category \<noteq> []
         then path_join (path_join (path_join (path_join (path_join base_dir device) category) year) month) day
         else path_join (path_join (path_join (path_join base_dir device) year) month) day)"

text \<open>
  \<open>target.mkdir(parents=True, exist_ok=True)\<close>: the directory and its ancestors exist
  afterwards.
\<close>

definition mkdir_parents :: "path \<Rightarrow> world \<Rightarrow> world" where
  "mkdir_parents target w = w\<lparr>disk := disk w @ tl (prefixes target)\<rparr>"

definition make_date_path :: "path \<Rightarrow> string \<Rightarrow> datetime \<Rightarrow> string \<Rightarrow> world \<Rightarrow> path \<times> world" where
  "make_date_path base_dir device date category w =
     (let target = date_path base_dir device date category
      in (target, mkdir_parents target w))"

section \<open>Main sorting logic\<close>

text \<open>\<open>f"{stem}_DUP{suffix}"\<close> and \<open>f"{stem}_DUP_{count}{suffix}"\<close>\<close>

definition dup_first :: "string \<Rightarrow> string \<Rightarrow> string" where
  "dup_first stem sfx = stem @ ''_DUP'' @ sfx"

definition dup_name :: "string \<Rightarrow> string \<Rightarrow> nat \<Rightarrow> string" where
  "dup_name stem sfx count = stem @ ''_DUP_'' @ str_nat count @ sfx"

lemma ord_digit_char: "d < 10 \<Longrightarrow> ord (digit_char d) - 48 = d"
  by (simp add: ord_def digit_char_def)

lemma int_of_digits_snoc: "int_of_digits (s @ [c]) = 10 * int_of_digits s + (ord c - 48)"
  by (simp add: int_of_digits_def)

lemma int_of_digits_str_nat: "int_of_digits (str_nat n) = n"
proof (induction n rule: str_nat.induct)
  case (1 n)
  show ?case
  proof (cases "n < 10")
    case True
    then show ?thesis by (subst str_nat.simps) (simp add: int_of_digits_def ord_digit_char)
  next
    case False
    with 1 have "int_of_digits (str_nat (n div 10)) = n div 10" by simp
    with False show ?thesis
      by (subst str_nat.simps) (simp add: int_of_digits_snoc ord_digit_char)
  qed
qed

lemma str_nat_inj: "str_nat a = str_nat b \<Longrightarrow> a = b"
  by (metis int_of_digits_str_nat)

lemma dup_name_inj: "dup_name stem sfx a = dup_name stem sfx b \<Longrightarrow> a = b"
  by (simp add: dup_name_def str_nat_inj)

lemma finite_dup_candidates:
  "finite {k. path_join d (dup_name stem sfx k) \<in> set ps}"
proof -
  have "inj (\<lambda>k. path_join d (dup_name stem sfx k))"
    by (rule injI) (simp add: path_join_def dup_name_inj)
  then have "finite ((\<lambda>k. path_join d (dup_name stem sfx k)) -` set ps)"
    by (simp add: finite_vimageI)
  then show ?thesis by (simp add: vimage_def)
qed

text \<open>
  The loop \<open>while target_file.exists()\<close>, on the paths \<open>ps\<close> that exist. It ends because
  the numbered names are pairwise distinct and only finitely many paths exist.
\<close>

function dup_loop :: "path list \<Rightarrow> path \<Rightarrow> string \<Rightarrow> string \<Rightarrow> path \<Rightarrow> nat \<Rightarrow> path" where
  "dup_loop ps target_dir stem sfx target_file count =
     (if target_file \<in> set ps
      then dup_loop ps target_dir stem sfx (path_join target_dir (dup_name stem sfx count)) (count + 1)
      else target_file)"
  by pat_completeness auto
termination
proof (relation "measure (\<lambda>(ps, d, stem, sfx, t, count).
          card {k. count \<le> k \<and> path_join d (dup_name stem sfx k) \<in> set ps}
          + (if t \<in> set ps then 1 else 0))")
  show "wf (measure (\<lambda>(ps, d, stem, sfx, t, count).
          card {k. count \<le> k \<and> path_join d (dup_name stem sfx k) \<in> set ps}
          + (if t \<in> set ps then 1 else 0)))" by simp
next
  fix ps :: "path list" and target_dir :: path and stem sfx :: string
    and target_file :: path and count :: nat
  assume ex: "target_file \<in> set ps"
  let ?K = "\<lambda>c. {k. c \<le> k \<and> path_join target_dir (dup_name stem sfx k) \<in> set ps}"
  have fin: "finite (?K count)"
    by (rule finite_subset[OF _ finite_dup_candidates[of target_dir stem sfx ps]]) auto
  have "card (?K (count + 1))
          + (if path_join target_dir (dup_name stem sfx count) \<in> set ps then 1 else 0)
        = card (?K count)"
  proof (cases "path_join target_dir (dup_name stem sfx count) \<in> set ps")
    case True
    then have "?K count = insert count (?K (count + 1))" by (auto simp: le_Suc_eq)
    moreover have "count \<notin> ?K (count + 1)" by simp
    moreover have "finite (?K (count + 1))" by (rule finite_subset[OF _ fin]) auto
    ultimately show ?thesis using True by simp
  next
    case False
    then have "?K count = ?K (count + 1)"
      by (auto simp: Suc_le_eq order_le_less)
    with False show ?thesis by simp
  qed
  with ex
  show "((ps, target_dir, stem, sfx, path_join target_dir (dup_name stem sfx count), count + 1),
         (ps, target_dir, stem, sfx, target_file, count))
        \<in> measure (\<lambda>(ps, d, stem, sfx, t, count).
          card {k. count \<le> k \<and> path_join d (dup_name stem sfx k) \<in> set ps}
          + (if t \<in> set ps then 1 else 0))" by simp
qed

declare dup_loop.simps [simp del]

text \<open>
  The choice of the final target (the block under \<open>if target_file.exists()\<close> in
  \<open>sort_media\<close>), on the paths \<open>ps\<close> that exist when it is made.
\<close>

definition resolve_target :: "path list \<Rightarrow> path \<Rightarrow> string \<Rightarrow> bool \<Rightarrow> path" where
  "resolve_target ps target_dir base_name duplicate =
     (let target_file = path_join target_dir base_name
      in if target_file \<in> set ps
         then
           let stem = path_stem target_file;
               sfx = path_suffix target_file;
               target_file = (if \<not> duplicate then path_join target_dir (dup_first stem sfx)
                              else target_file)
           in dup_loop ps target_dir stem sfx target_file 1
         else target_file)"

text \<open>
  A successful \<open>shutil.move(src, dst)\<close> to a destination that does not exist: a rename.
  Whether the call raises instead is given with the file (\<open>move_raises\<close>).
\<close>

definition shutil_move :: "path \<Rightarrow> path \<Rightarrow> world \<Rightarrow> world" where
  "shutil_move src dst w =
     w\<lparr>disk := filter (\<lambda>p. p \<noteq> src) (disk w) @ [dst], moves := moves w @ [(src, dst)]\<rparr>"

text \<open>The exception \<open>shutil.move\<close> raises for a file it cannot move.\<close>

datatype error = MoveError path

text \<open>A run ends normally or by an exception that nothing catches.\<close>

datatype outcome = Completed world | Aborted error world

text \<open>The name and the directory a file resolves to.\<close>

definition base_name_of :: "media_file \<Rightarrow> string" where
  "base_name_of f =
     (let ext = lower (path_suffix (file_path f));
          new_name = get_metadata_filename f
      in if endswith (lower new_name) ext then new_name else new_name @ ext)"

definition target_dir_of :: "media_file \<Rightarrow> path" where
  "target_dir_of f =
     (case get_best_date f of
        (date, device) \<Rightarrow>
          date_path OUTPUT_DIR device date (detect_special_category (file_path f) (walk_root f)))"

text \<open>
  The body of the loop of \<open>sort_media\<close> for a media file: \<open>Inl\<close> when \<open>shutil.move\<close>
  raises, otherwise the updated \<open>seen_hashes\<close> and state.
\<close>

definition place_file ::
  "bool \<Rightarrow> media_file \<Rightarrow> (string \<rightharpoonup> path) \<Rightarrow> world
     \<Rightarrow> (error \<times> world) + ((string \<rightharpoonup> path) \<times> world)" where
  "place_file EXIFTOOL_EXISTS f seen_hashes w0 =
     (let path = file_path f in
      case get_best_date f of (date, device) \<Rightarrow>
      let category = detect_special_category path (walk_root f);
          base_name = base_name_of f;
          filehash = digest f;
          duplicate = (seen_hashes filehash \<noteq> None)
      in case make_date_path OUTPUT_DIR device date category w0 of (target_dir, w1) \<Rightarrow>
      let target_file = resolve_target (disk w1) target_dir base_name duplicate
      in if move_raises f then Inl (MoveError path, w1)
         else
           let w2 = shutil_move path target_file w1
           in case apply_correct_dates EXIFTOOL_EXISTS (exiftool_ok f) target_file date w2 of
                (timestamp_fixed, w3) \<Rightarrow>
                  let w4 = log_move (PathV path) (PathV target_file) (Str device) (Str category)
                             (DateV date) (Str filehash) (BoolV duplicate) (Str ''false'') w3
                  in Inr (seen_hashes(filehash \<mapsto> target_file), w4))"

fun sort_loop :: "bool \<Rightarrow> media_file list \<Rightarrow> (string \<rightharpoonup> path) \<Rightarrow> world \<Rightarrow> outcome" where
  "sort_loop EXIFTOOL_EXISTS [] seen_hashes w = Completed w"
| "sort_loop EXIFTOOL_EXISTS (f # files) seen_hashes w =
     (let ext = lower (path_suffix (file_path f))
      in if ext \<notin> IMAGE_EXT \<union> VIDEO_EXT then sort_loop EXIFTOOL_EXISTS files seen_hashes w
         else (case place_file EXIFTOOL_EXISTS f seen_hashes w of
                 Inl (e, w') \<Rightarrow> Aborted e w'
               | Inr (seen_hashes', w') \<Rightarrow> sort_loop EXIFTOOL_EXISTS files seen_hashes' w'))"

text \<open>\<open>sort_media\<close> on the files \<open>os.walk(SOURCE_DIR)\<close> visits, in order; \<open>seen_hashes\<close> starts empty.\<close>

definition sort_media :: "bool \<Rightarrow> media_file list \<Rightarrow> world \<Rightarrow> outcome" where
  "sort_media EXIFTOOL_EXISTS files w = sort_loop EXIFTOOL_EXISTS files Map.empty w"

fun final_world :: "outcome \<Rightarrow> world" where
  "final_world (Completed w) = w"
| "final_world (Aborted e w) = w"

section \<open>Example inputs\<close>

text \<open>
  A file directly in \<open>SOURCE_DIR\<close>, without readable EXIF data, and a state with the given
  paths on disk and a log file that holds its header.
\<close>

definition example_time :: datetime where
  "example_time = \<lparr>year = 2024, month = 1, day = 2, hour = 3, minute = 4, second = 5\<rparr>"

definition example_file :: "string \<Rightarrow> string \<Rightarrow> bool \<Rightarrow> media_file" where
  "example_file name hash raises =
     \<lparr>subdirs = [], file_name = name, exif = None, digest = hash, mtime = example_time,
      move_raises = raises, exiftool_ok = True\<rparr>"

definition example_world :: "path list \<Rightarrow> world" where
  "example_world ps = \<lparr>disk = ps, log_file = Some [HEADER], exiftool_calls = [], moves = []\<rparr>"

text \<open>An image whose only EXIF tag is an \<open>ImageDescription\<close>.\<close>

definition described_file :: "string \<Rightarrow> string \<Rightarrow> media_file" where
  "described_file name desc =
     \<lparr>subdirs = [], file_name = name,
      exif = Some \<lparr>date_tag = None, make_tag = None, model_tag = None,
                   description_tag = Some desc, document_tag = None, xp_filename_tag = None\<rparr>,
      digest = ''h'', mtime = example_time, move_raises = False, exiftool_ok = True\<rparr>"

text \<open>A dated directory of the output tree.\<close>

definition example_dir :: path where
  "example_dir = OUTPUT_DIR @ [''default'', ''2024'', ''01'', ''02'']"

text \<open>Files named \<open>photo.jpg\<close> in directories below \<open>SOURCE_DIR\<close>.\<close>

definition photo_in :: "string \<Rightarrow> string \<Rightarrow> media_file" where
  "photo_in d hash = (example_file ''photo.jpg'' hash False)\<lparr>subdirs := [d]\<rparr>"

definition three_photos :: "media_file list" where
  "three_photos = [photo_in ''a'' ''h1'', photo_in ''b'' ''h2'', photo_in ''c'' ''h3'']"

section \<open>Predicates used in the statements and proofs\<close>



text \<open>
  The destinations of the moves made so far are pairwise distinct, all exist, and all lie
  in a dated directory of the output tree.
\<close>

definition placed_ok :: "world \<Rightarrow> bool" where
  "placed_ok w =
     (distinct (map snd (moves w))
      \<and> snd ` set (moves w) \<subseteq> set (disk w)
      \<and> (\<forall>d \<in> snd ` set (moves w). \<exists>g x. d = path_join (target_dir_of g) x))"

section \<open>Properties of device cleaning\<close>

lemma set_sub_runs: "set (sub_runs P r s) \<subseteq> set s \<union> set r"
proof (induction P r s rule: sub_runs.induct)
  case (1 P repl)
  show ?case by simp
next
  case (2 P repl c cs)
  show ?case
  proof (cases "P c")
    case True
    with 2 have "set (sub_runs P repl (dropWhile P cs)) \<subseteq> set (dropWhile P cs) \<union> set repl"
      by simp
    moreover have "set (dropWhile P cs) \<subseteq> set cs"
      by (rule set_dropWhileD[THEN subsetI])
    ultimately show ?thesis using True by auto
  next
    case False
    with 2 show ?thesis by auto
  qed
qed

lemma set_strip: "set (strip chars s) \<subseteq> set s"
  unfolding strip_def by (metis set_rev set_dropWhileD subsetI)

lemma ord_underscore: "ord (CHR ''_'') = 95"
  by (simp add: ord_def)

lemma clean_device_string_range:
  assumes c: "c \<in> set (clean_device_string s)"
  shows "32 \<le> ord c \<and> ord c \<le> 126"
proof -
  define s1 where "s1 = filter (\<lambda>ch. 32 \<le> ord ch \<and> ord ch \<le> 126) s"
  define s2 where "s2 = filter (\<lambda>ch. ch \<notin> set illegal_chars) s1"
  define s3 where "s3 = sub_runs is_space ''_'' s2"
  define s4 where "s4 = strip ''_'' (sub_runs (\<lambda>ch. ch = CHR ''_'') ''_'' s3)"
  have r: "clean_device_string s = ''default'' \<or> clean_device_string s = s4"
    by (simp add: clean_device_string_def Let_def s1_def s2_def s3_def s4_def)
  have "set s4 \<subseteq> set s3 \<union> {CHR ''_''}"
    unfolding s4_def using set_strip set_sub_runs by fastforce
  moreover have "set s3 \<subseteq> set s2 \<union> {CHR ''_''}"
    unfolding s3_def using set_sub_runs by fastforce
  moreover have "set s2 \<subseteq> set s1"
    unfolding s2_def by auto
  ultimately have s4: "set s4 \<subseteq> set s1 \<union> {CHR ''_''}" by blast
  have s1: "\<forall>c \<in> set s1. 32 \<le> ord c \<and> ord c \<le> 126"
    unfolding s1_def by auto
  have d: "\<forall>c \<in> set ''default''. 32 \<le> ord c \<and> ord c \<le> 126"
    by (simp add: ord_def)
  from r show ?thesis
  proof
    assume "clean_device_string s = ''default''"
    with c d show ?thesis by metis
  next
    assume "clean_device_string s = s4"
    with c have "c \<in> set s1 \<or> c = CHR ''_''" using s4 by auto
    then show ?thesis using s1 ord_underscore by auto
  qed
qed

lemma clean_device_string_non_ascii:
  assumes a: "\<forall>c \<in> set s. 127 < ord c"
  shows "clean_device_string s = ''default''"
proof -
  have "filter (\<lambda>ch. 32 \<le> ord ch \<and> ord ch \<le> 126) s = []"
    using a by (auto simp: filter_empty_conv)
  then show ?thesis
    by (simp add: clean_device_string_def Let_def strip_def lower_def)
qed

text \<open>
  C10. Every string \<open>clean_device_string\<close> returns consists of characters with code
  points 32 to 126 only; and a string made of non-ASCII characters only (code points above
  127), printable or not, is cleaned to \<open>"default"\<close>.
\<close>

theorem clean_device_string_ascii_only:
  "(\<forall>c \<in> set (clean_device_string s). 32 \<le> ord c \<and> ord c \<le> 126)
   \<and> ((\<forall>c \<in> set s. 127 < ord c) \<longrightarrow> clean_device_string s = ''default'')"
  using clean_device_string_range clean_device_string_non_ascii by blast

theorem clean_device_string_ascii_only_witness:
  "clean_device_string [CHR 0xE9, CHR 0xFC] = ''default''
   \<and> CHR ''C'' \<in> set (clean_device_string ''Canon  EOS/Rebel*'')
   \<and> 32 \<le> ord (CHR ''C'') \<and> ord (CHR ''C'') \<le> 126"
proof -
  have m: "CHR ''C'' \<in> set (clean_device_string ''Canon  EOS/Rebel*'')"
    by code_simp
  have h: "\<forall>c \<in> set [CHR 0xE9, CHR 0xFC]. 127 < ord c"
    by (simp add: ord_def)
  show ?thesis
    using clean_device_string_ascii_only[of "[CHR 0xE9, CHR 0xFC]"]
      clean_device_string_ascii_only[of "''Canon  EOS/Rebel*''"] m h
    by blast
qed

section \<open>Properties of category detection\<close>

lemma wa_name_no_keyword: "\<not> str_in ''whatsapp'' (lower ''IMG-20230101-WA0005.jpg'')"
  by code_simp

lemma first_keyword_cases:
  "first_keyword ws name root = [] \<or> first_keyword ws name root \<in> set ws"
  by (induction ws) auto

lemma first_keyword_head:
  assumes "w \<notin> set ws" and "w \<noteq> []"
  shows "(first_keyword (w # ws) name root = w) = (str_in w name \<or> str_in w root)"
proof (cases "str_in w name \<or> str_in w root")
  case True
  then show ?thesis by simp
next
  case False
  have "first_keyword ws name root \<noteq> w"
    using first_keyword_cases[of ws name root] assms by auto
  with False show ?thesis by simp
qed

lemma whatsapp_first:
  "(first_keyword SPECIAL_KEYWORDS name root = ''whatsapp'')
     = (str_in ''whatsapp'' name \<or> str_in ''whatsapp'' root)"
  unfolding SPECIAL_KEYWORDS_def
  by (rule first_keyword_head) simp_all

text \<open>
  C6, as stated, fails: the name \<open>IMG-20230101-WA0005.jpg\<close> contains no keyword, so in
  the source directory itself the file gets no category.
\<close>

theorem whatsapp_name_counterexample:
  "detect_special_category (SOURCE_DIR @ [''IMG-20230101-WA0005.jpg'']) (path_str SOURCE_DIR)
     \<noteq> ''whatsapp''"
  by code_simp

text \<open>
  C6, amended. A file named \<open>IMG-20230101-WA0005.jpg\<close> is assigned the category
  \<open>"whatsapp"\<close> exactly when the path of the containing directory, in lower case, contains
  \<open>whatsapp\<close>.
\<close>

theorem whatsapp_name_category:
  "path_name p = ''IMG-20230101-WA0005.jpg'' \<Longrightarrow>
   (detect_special_category p root = ''whatsapp'') = str_in ''whatsapp'' (lower root)"
  using wa_name_no_keyword
  by (simp add: detect_special_category_def Let_def whatsapp_first)

theorem whatsapp_name_category_witness:
  "detect_special_category (SOURCE_DIR @ [''WhatsApp Images'', ''IMG-20230101-WA0005.jpg''])
      (path_str (SOURCE_DIR @ [''WhatsApp Images''])) = ''whatsapp''"
proof -
  have n: "path_name (SOURCE_DIR @ [''WhatsApp Images'', ''IMG-20230101-WA0005.jpg''])
             = ''IMG-20230101-WA0005.jpg''"
    by (simp add: path_name_def)
  have r: "str_in ''whatsapp'' (lower (path_str (SOURCE_DIR @ [''WhatsApp Images''])))"
    by code_simp
  show ?thesis
    using whatsapp_name_category[OF n, of "path_str (SOURCE_DIR @ [''WhatsApp Images''])"] r
    by simp
qed

section \<open>Failures of a move, of the log and of the metadata name\<close>

text \<open>
  C1. \<open>sort_media\<close> does not catch what \<open>shutil.move\<close> raises: when the move of
  \<open>a.jpg\<close> fails, the run ends there with that exception. The second file \<open>b.jpg\<close> is never
  processed: it is still in the source directory, nothing was moved and nothing logged.
\<close>

theorem move_failure_aborts_run:
  "sort_media False [example_file ''a.jpg'' ''h1'' True, example_file ''b.jpg'' ''h2'' False]
     (example_world [SOURCE_DIR @ [''a.jpg''], SOURCE_DIR @ [''b.jpg'']])
   = Aborted (MoveError (SOURCE_DIR @ [''a.jpg'']))
       (mkdir_parents (OUTPUT_DIR @ [''default'', ''2024'', ''01'', ''02''])
          (example_world [SOURCE_DIR @ [''a.jpg''], SOURCE_DIR @ [''b.jpg'']]))"
  by code_simp

text \<open>
  Whatever the outcome of the repair, the row that \<open>sort_media\<close> logs for a file it
  has moved ends with \<open>YES\<close>.
\<close>

lemma place_file_logs_yes:
  assumes "place_file tool f seen w = Inr (seen', w')"
  shows "\<exists>rows row. log_file w' = Some (rows @ [row]) \<and> length row = 8
           \<and> last row = Str ''YES''"
  using assms
  by (auto simp: place_file_def make_date_path_def mkdir_parents_def
        shutil_move_def apply_correct_dates_def log_move_def open_append_def Let_def
      split: prod.splits if_splits option.splits)

text \<open>
  C2. With \<open>exiftool\<close> unavailable no invocation is made, but the row written for the file
  has \<open>YES\<close> in its \<open>TimestampFixed\<close> field: \<open>log_move\<close> is handed the non-empty string
  \<open>'false'\<close>, which is true in a condition.
\<close>

theorem unavailable_tool_logged_yes:
  "log_file (final_world (sort_media False [example_file ''b.jpg'' ''h2'' False]
       (example_world [SOURCE_DIR @ [''b.jpg'']])))
   = Some [HEADER,
       [PathV (SOURCE_DIR @ [''b.jpg'']),
        PathV (OUTPUT_DIR @ [''default'', ''2024'', ''01'', ''02'', ''b.jpg'']),
        Str ''default'', Str [], DateV example_time, Str ''h2'', BoolV False, Str ''YES'']]
   \<and> exiftool_calls (final_world (sort_media False [example_file ''b.jpg'' ''h2'' False]
       (example_world [SOURCE_DIR @ [''b.jpg'']]))) = []"
  by code_simp

text \<open>
  C5. When the log file is absent, \<open>init_log\<close> leaves an empty file: the header is not
  written, because the file exists by the time its existence is tested.
\<close>

theorem init_log_writes_no_header:
  "log_file (init_log (w\<lparr>log_file := None\<rparr>)) = Some []
   \<and> log_file (init_log (w\<lparr>log_file := None\<rparr>)) \<noteq> Some [HEADER]"
  by (simp add: init_log_def open_append_def Let_def)

text \<open>
  C7. For an image description that already ends with the extension, \<open>get_metadata_filename\<close>
  appends the extension again: only the \<open>XPFilename\<close> branch makes the test.
\<close>

theorem description_extension_doubled:
  "get_metadata_filename (described_file ''IMG_0001.jpg'' ''photo.jpg'') = ''photo.jpg.jpg''"
  by code_simp

section \<open>Properties of filename date extraction\<close>































section \<open>Properties of the choice of the target\<close>

lemma dup_loop_free: "dup_loop ps d stem sfx t c \<notin> set ps"
proof (induction ps d stem sfx t c rule: dup_loop.induct)
  case (1 ps target_dir stem sfx target_file count)
  show ?case
  proof (cases "target_file \<in> set ps")
    case True
    with 1 show ?thesis by (subst dup_loop.simps) simp
  next
    case False
    then show ?thesis by (subst dup_loop.simps) simp
  qed
qed

lemma dup_loop_numbered:
  "t \<in> set ps \<Longrightarrow>
   \<exists>n\<ge>c. dup_loop ps d stem sfx t c = path_join d (dup_name stem sfx n)
          \<and> (\<forall>k. c \<le> k \<and> k < n \<longrightarrow> path_join d (dup_name stem sfx k) \<in> set ps)"
proof (induction ps d stem sfx t c rule: dup_loop.induct)
  case (1 ps target_dir stem sfx target_file count)
  let ?t' = "path_join target_dir (dup_name stem sfx count)"
  have step: "dup_loop ps target_dir stem sfx target_file count
                = dup_loop ps target_dir stem sfx ?t' (count + 1)"
    using "1.prems" by (subst dup_loop.simps) simp
  show ?case
  proof (cases "?t' \<in> set ps")
    case False
    then have "dup_loop ps target_dir stem sfx ?t' (count + 1) = ?t'"
      by (subst dup_loop.simps) simp
    with step have "dup_loop ps target_dir stem sfx target_file count = ?t'" by simp
    then show ?thesis by (intro exI[of _ count]) auto
  next
    case True
    from "1.IH"[OF "1.prems" True] obtain n where n: "count + 1 \<le> n"
      and r: "dup_loop ps target_dir stem sfx ?t' (count + 1) = path_join target_dir (dup_name stem sfx n)"
      and a: "\<forall>k. count + 1 \<le> k \<and> k < n \<longrightarrow> path_join target_dir (dup_name stem sfx k) \<in> set ps"
      by blast
    have "\<forall>k. count \<le> k \<and> k < n \<longrightarrow> path_join target_dir (dup_name stem sfx k) \<in> set ps"
    proof (intro allI impI)
      fix k assume k: "count \<le> k \<and> k < n"
      show "path_join target_dir (dup_name stem sfx k) \<in> set ps"
      proof (cases "k = count")
        case True
        with \<open>?t' \<in> set ps\<close> show ?thesis by simp
      next
        case False
        with k a show ?thesis by simp
      qed
    qed
    moreover have "dup_loop ps target_dir stem sfx target_file count
                     = path_join target_dir (dup_name stem sfx n)"
      using step r by simp
    moreover have "count \<le> n" using n by simp
    ultimately show ?thesis by blast
  qed
qed

lemma dup_loop_form:
  "\<exists>x. t = path_join d x \<Longrightarrow> \<exists>x. dup_loop ps d stem sfx t c = path_join d x"
proof (induction ps d stem sfx t c rule: dup_loop.induct)
  case (1 ps target_dir stem sfx target_file count)
  show ?case
  proof (cases "target_file \<in> set ps")
    case True
    have "\<exists>x. dup_loop ps target_dir stem sfx (path_join target_dir (dup_name stem sfx count)) (count + 1)
            = path_join target_dir x"
      by (rule "1.IH"[OF True]) blast
    with True show ?thesis by (subst dup_loop.simps) simp
  next
    case False
    with "1.prems" show ?thesis by (subst dup_loop.simps) simp
  qed
qed

lemma resolve_target_free: "resolve_target ps target_dir base_name duplicate \<notin> set ps"
  by (simp add: resolve_target_def Let_def dup_loop_free)

lemma resolve_target_form:
  "\<exists>x. resolve_target ps target_dir base_name duplicate = path_join target_dir x"
proof (cases "path_join target_dir base_name \<in> set ps")
  case False
  then have "resolve_target ps target_dir base_name duplicate = path_join target_dir base_name"
    by (simp add: resolve_target_def Let_def)
  then show ?thesis by blast
next
  case True
  let ?stem = "path_stem (path_join target_dir base_name)"
  let ?sfx = "path_suffix (path_join target_dir base_name)"
  let ?t = "if \<not> duplicate then path_join target_dir (dup_first ?stem ?sfx)
            else path_join target_dir base_name"
  have "\<exists>x. ?t = path_join target_dir x" by auto
  from dup_loop_form[OF this, of ps ?stem ?sfx 1] True
  show ?thesis by (simp add: resolve_target_def Let_def)
qed

lemma dup_name_not_first: "dup_name stem sfx n \<noteq> dup_first stem sfx"
proof
  assume "dup_name stem sfx n = dup_first stem sfx"
  then have "length (dup_name stem sfx n) = length (dup_first stem sfx)" by simp
  then show False by (simp add: dup_name_def dup_first_def)
qed

text \<open>
  C4, as stated, fails: for a known duplicate whose desired path exists, the path with
  the plain suffix \<open>_DUP\<close> is not tried. Here it is free, and \<open>photo_DUP_1.jpg\<close> is chosen.
\<close>

theorem duplicate_skips_plain_dup_counterexample:
  "path_join example_dir ''photo_DUP.jpg'' \<notin> set [path_join example_dir ''photo.jpg'']
   \<and> resolve_target [path_join example_dir ''photo.jpg''] example_dir ''photo.jpg'' True
       = path_join example_dir ''photo_DUP_1.jpg''"
  by code_simp

text \<open>
  C4, amended. When the desired target path exists and the digest of the file was seen
  before in the run, the final target is \<open>stem_DUP_n.ext\<close> for the least \<open>n \<ge> 1\<close> such that
  this path does not exist: \<open>stem_DUP_1.ext\<close>, \<open>stem_DUP_2.ext\<close>, ... are tried in turn, and
  \<open>stem_DUP.ext\<close> is never the result.
\<close>

theorem duplicate_numbering_starts_at_one:
  assumes "path_join target_dir base_name \<in> set ps"
  shows "\<exists>n\<ge>1. resolve_target ps target_dir base_name True
            = path_join target_dir
                (dup_name (path_stem (path_join target_dir base_name))
                   (path_suffix (path_join target_dir base_name)) n)
          \<and> resolve_target ps target_dir base_name True \<notin> set ps
          \<and> resolve_target ps target_dir base_name True
              \<noteq> path_join target_dir
                  (dup_first (path_stem (path_join target_dir base_name))
                     (path_suffix (path_join target_dir base_name)))
          \<and> (\<forall>k. 1 \<le> k \<and> k < n \<longrightarrow>
                path_join target_dir
                  (dup_name (path_stem (path_join target_dir base_name))
                     (path_suffix (path_join target_dir base_name)) k) \<in> set ps)"
proof -
  let ?stem = "path_stem (path_join target_dir base_name)"
  let ?sfx = "path_suffix (path_join target_dir base_name)"
  have r: "resolve_target ps target_dir base_name True
             = dup_loop ps target_dir ?stem ?sfx (path_join target_dir base_name) 1"
    using assms by (simp add: resolve_target_def Let_def)
  from dup_loop_numbered[OF assms, of 1 target_dir ?stem ?sfx] obtain n where n: "1 \<le> n"
    and e: "dup_loop ps target_dir ?stem ?sfx (path_join target_dir base_name) 1
              = path_join target_dir (dup_name ?stem ?sfx n)"
    and a: "\<forall>k. 1 \<le> k \<and> k < n \<longrightarrow> path_join target_dir (dup_name ?stem ?sfx k) \<in> set ps"
    by blast
  have "path_join target_dir (dup_name ?stem ?sfx n) \<noteq> path_join target_dir (dup_first ?stem ?sfx)"
    using dup_name_not_first by (simp add: path_join_def)
  with n e a r resolve_target_free[of ps target_dir base_name True]
  show ?thesis by (intro exI[of _ n]) simp
qed

theorem duplicate_numbering_starts_at_one_witness:
  "resolve_target [path_join example_dir ''photo.jpg'', path_join example_dir ''photo_DUP_1.jpg'']
      example_dir ''photo.jpg'' True
     = path_join example_dir ''photo_DUP_2.jpg''
   \<and> resolve_target [path_join example_dir ''photo.jpg'', path_join example_dir ''photo_DUP_1.jpg'']
      example_dir ''photo.jpg'' True
     \<notin> set [path_join example_dir ''photo.jpg'', path_join example_dir ''photo_DUP_1.jpg'']"
proof -
  have h: "path_join example_dir ''photo.jpg''
             \<in> set [path_join example_dir ''photo.jpg'', path_join example_dir ''photo_DUP_1.jpg'']"
    by simp
  have e: "resolve_target
             [path_join example_dir ''photo.jpg'', path_join example_dir ''photo_DUP_1.jpg'']
             example_dir ''photo.jpg'' True
           = path_join example_dir ''photo_DUP_2.jpg''"
    by code_simp
  show ?thesis
    using duplicate_numbering_starts_at_one[OF h] e by blast
qed

section \<open>Properties of a run\<close>

lemma place_file_Inr:
  assumes "place_file tool f seen w = Inr (seen', w')"
  shows "moves w' = moves w @ [(file_path f,
            resolve_target (disk w @ tl (prefixes (target_dir_of f))) (target_dir_of f)
              (base_name_of f) (seen (digest f) \<noteq> None))]
       \<and> disk w' = filter (\<lambda>p. p \<noteq> file_path f) (disk w @ tl (prefixes (target_dir_of f)))
            @ [resolve_target (disk w @ tl (prefixes (target_dir_of f))) (target_dir_of f)
                 (base_name_of f) (seen (digest f) \<noteq> None)]
       \<and> seen' = seen(digest f \<mapsto>
            resolve_target (disk w @ tl (prefixes (target_dir_of f))) (target_dir_of f)
              (base_name_of f) (seen (digest f) \<noteq> None))
       \<and> \<not> move_raises f"
  using assms
  by (auto simp: place_file_def target_dir_of_def make_date_path_def mkdir_parents_def
        shutil_move_def apply_correct_dates_def log_move_def open_append_def Let_def
      split: prod.splits if_splits option.splits)

lemma place_file_Inl:
  assumes "place_file tool f seen w = Inl (e, w')"
  shows "moves w' = moves w \<and> set (disk w) \<subseteq> set (disk w')"
  using assms
  by (auto simp: place_file_def target_dir_of_def make_date_path_def mkdir_parents_def
        shutil_move_def apply_correct_dates_def log_move_def open_append_def Let_def
      split: prod.splits if_splits option.splits)

lemma place_file_total:
  "\<not> move_raises f \<Longrightarrow> \<exists>seen' w'. place_file tool f seen w = Inr (seen', w')"
  by (auto simp: place_file_def Let_def split: prod.splits)


lemma date_path_under: "\<exists>r. date_path base_dir device date category = base_dir @ r"
  by (simp add: date_path_def Let_def path_join_def)

lemma target_dir_under: "\<exists>r. target_dir_of f = OUTPUT_DIR @ r"
  unfolding target_dir_of_def using date_path_under by (simp split: prod.splits)

lemma target_in_output: "take 4 (path_join (target_dir_of f) x) = OUTPUT_DIR"
proof -
  from target_dir_under obtain r where "target_dir_of f = OUTPUT_DIR @ r" by blast
  then show ?thesis by (simp add: path_join_def OUTPUT_DIR_def)
qed

lemma source_in_source: "take 4 (file_path f) = SOURCE_DIR"
  by (simp add: file_path_def path_join_def SOURCE_DIR_def)

lemma source_not_target: "file_path f \<noteq> path_join (target_dir_of g) x"
proof
  assume "file_path f = path_join (target_dir_of g) x"
  then have "take 4 (file_path f) = take 4 (path_join (target_dir_of g) x)" by simp
  then show False
    unfolding source_in_source target_in_output by (simp add: SOURCE_DIR_def OUTPUT_DIR_def)
qed

lemma placed_ok_place_file:
  assumes ok: "placed_ok w" and p: "place_file tool f seen w = Inr (seen', w')"
  shows "placed_ok w'"
proof -
  let ?ps = "disk w @ tl (prefixes (target_dir_of f))"
  let ?T = "resolve_target ?ps (target_dir_of f) (base_name_of f) (seen (digest f) \<noteq> None)"
  from place_file_Inr[OF p] have m: "moves w' = moves w @ [(file_path f, ?T)]"
    and d: "disk w' = filter (\<lambda>p. p \<noteq> file_path f) ?ps @ [?T]" by simp_all
  have free: "?T \<notin> set ?ps" by (rule resolve_target_free)
  from resolve_target_form obtain x where T: "?T = path_join (target_dir_of f) x" by blast
  from ok have dist: "distinct (map snd (moves w))"
    and sub: "snd ` set (moves w) \<subseteq> set (disk w)"
    and out: "\<forall>d \<in> snd ` set (moves w). \<exists>g x. d = path_join (target_dir_of g) x"
    unfolding placed_ok_def by simp_all
  have new: "?T \<notin> snd ` set (moves w)" using free sub by auto
  have 1: "distinct (map snd (moves w'))" using dist new by (simp add: m)
  have keep: "q \<in> set (disk w')" if q: "q \<in> snd ` set (moves w)" for q
  proof -
    from out q obtain g y where "q = path_join (target_dir_of g) y" by blast
    then have "q \<noteq> file_path f" using source_not_target[of f g y] by simp
    moreover have "q \<in> set (disk w)" using sub q by blast
    ultimately show ?thesis by (simp add: d)
  qed
  have 2: "snd ` set (moves w') \<subseteq> set (disk w')"
  proof
    fix q assume "q \<in> snd ` set (moves w')"
    then have "q \<in> snd ` set (moves w) \<or> q = ?T" by (auto simp: m)
    then show "q \<in> set (disk w')"
    proof
      assume "q \<in> snd ` set (moves w)" then show ?thesis by (rule keep)
    next
      assume "q = ?T" then show ?thesis by (simp add: d)
    qed
  qed
  have 3: "\<forall>d \<in> snd ` set (moves w'). \<exists>g x. d = path_join (target_dir_of g) x"
  proof
    fix q assume "q \<in> snd ` set (moves w')"
    then have "q \<in> snd ` set (moves w) \<or> q = ?T" by (auto simp: m)
    then show "\<exists>g x. q = path_join (target_dir_of g) x"
      using out T by blast
  qed
  from 1 2 3 show ?thesis unfolding placed_ok_def by simp
qed

lemma placed_ok_sort_loop:
  "placed_ok w \<Longrightarrow> placed_ok (final_world (sort_loop tool files seen w))"
proof (induction files arbitrary: seen w)
  case Nil
  then show ?case by simp
next
  case (Cons f files)
  show ?case
  proof (cases "lower (path_suffix (file_path f)) \<notin> IMAGE_EXT \<union> VIDEO_EXT")
    case True
    then have "sort_loop tool (f # files) seen w = sort_loop tool files seen w"
      by (auto simp: Let_def)
    with Cons show ?thesis by simp
  next
    case False
    show ?thesis
    proof (cases "place_file tool f seen w")
      case (Inl a)
      obtain e w' where a: "a = (e, w')" by (cases a)
      from place_file_Inl[of tool f seen w e w'] Inl a
      have "moves w' = moves w" and "set (disk w) \<subseteq> set (disk w')" by simp_all
      with Cons.prems have "placed_ok w'" unfolding placed_ok_def by auto
      moreover have "sort_loop tool (f # files) seen w = Aborted e w'"
        using False Inl a by (auto simp: Let_def)
      ultimately show ?thesis by simp
    next
      case (Inr b)
      obtain seen' w' where b: "b = (seen', w')" by (cases b)
      from placed_ok_place_file[OF Cons.prems, of tool f seen seen' w'] Inr b
      have "placed_ok w'" by simp
      moreover have "sort_loop tool (f # files) seen w = sort_loop tool files seen' w'"
        using False Inr b by (auto simp: Let_def)
      ultimately show ?thesis using Cons.IH by simp
    qed
  qed
qed

text \<open>
  C3. The final target chosen by the collision handling never exists among the paths on
  disk it is chosen against (and the choice always ends); and in a run the destinations of
  all files moved are pairwise distinct, whether the run completes or not.
\<close>

theorem targets_free_and_distinct:
  "resolve_target ps target_dir base_name duplicate \<notin> set ps
   \<and> (moves w = [] \<longrightarrow>
        distinct (map snd (moves (final_world (sort_media EXIFTOOL_EXISTS files w)))))"
proof -
  have "placed_ok w" if "moves w = []"
    using that by (simp add: placed_ok_def)
  then have "moves w = [] \<longrightarrow> placed_ok (final_world (sort_media EXIFTOOL_EXISTS files w))"
    unfolding sort_media_def using placed_ok_sort_loop by blast
  then show ?thesis
    using resolve_target_free by (simp add: placed_ok_def)
qed


lemma path_name_join: "path_name (path_join d x) = x"
  by (simp add: path_name_def path_join_def)

lemma photo_stem: "path_stem (path_join d ''photo.jpg'') = ''photo''"
  by (simp add: path_stem_def path_name_join last_dot_def Let_def)

lemma photo_suffix: "path_suffix (path_join d ''photo.jpg'') = ''.jpg''"
  by (simp add: path_suffix_def path_name_join last_dot_def Let_def)

lemma photo_dup_1: "dup_name ''photo'' ''.jpg'' 1 = ''photo_DUP_1.jpg''"
  by code_simp

lemma photo_dup_Suc: "dup_name ''photo'' ''.jpg'' (Suc 0) = ''photo_DUP_1.jpg''"
  using photo_dup_1 by simp

lemma resolve_photo_free:
  "path_join d ''photo.jpg'' \<notin> set ps \<Longrightarrow>
   resolve_target ps d ''photo.jpg'' dup = path_join d ''photo.jpg''"
  by (simp add: resolve_target_def Let_def)

lemma resolve_photo_first:
  assumes "path_join d ''photo.jpg'' \<in> set ps" and "path_join d ''photo_DUP.jpg'' \<notin> set ps"
  shows "resolve_target ps d ''photo.jpg'' False = path_join d ''photo_DUP.jpg''"
proof -
  have "dup_loop ps d ''photo'' ''.jpg'' (path_join d ''photo_DUP.jpg'') 1
          = path_join d ''photo_DUP.jpg''"
    using assms(2) by (subst dup_loop.simps) simp
  with assms(1) show ?thesis
    by (simp add: resolve_target_def Let_def photo_stem photo_suffix dup_first_def)
qed

lemma resolve_photo_second:
  assumes "path_join d ''photo.jpg'' \<in> set ps" and "path_join d ''photo_DUP.jpg'' \<in> set ps"
    and "path_join d ''photo_DUP_1.jpg'' \<notin> set ps"
  shows "resolve_target ps d ''photo.jpg'' False = path_join d ''photo_DUP_1.jpg''"
proof -
  have "dup_loop ps d ''photo'' ''.jpg'' (path_join d ''photo_DUP_1.jpg'') (1 + 1)
          = path_join d ''photo_DUP_1.jpg''"
    using assms(3) by (subst dup_loop.simps) simp
  then have "dup_loop ps d ''photo'' ''.jpg'' (path_join d ''photo_DUP.jpg'') 1
          = path_join d ''photo_DUP_1.jpg''"
    using assms(2) by (subst dup_loop.simps) (simp add: photo_dup_Suc)
  with assms(1) show ?thesis
    by (simp add: resolve_target_def Let_def photo_stem photo_suffix dup_first_def)
qed

lemma not_in_prefixes: "path_join d x \<notin> set (tl (prefixes d))"
proof
  assume "path_join d x \<in> set (tl (prefixes d))"
  then have "path_join d x \<in> set (prefixes d)" by (rule list.set_sel(2)[rotated]) simp
  then have "prefix (path_join d x) d" by simp
  then have "length (path_join d x) \<le> length d" by (rule prefix_length_le)
  then show False by (simp add: path_join_def)
qed

lemma sort_loop_step:
  assumes "lower (path_suffix (file_path f)) \<in> IMAGE_EXT \<union> VIDEO_EXT"
    and "place_file tool f seen w = Inr (seen', w')"
  shows "sort_loop tool (f # files) seen w = sort_loop tool files seen' w'"
  using assms by (auto simp: Let_def)

text \<open>
  C8. Three media files of pairwise distinct content that resolve to the name
  \<open>photo.jpg\<close> and to the same target directory, where none of \<open>photo.jpg\<close>,
  \<open>photo_DUP.jpg\<close> and \<open>photo_DUP_1.jpg\<close> exists before, are moved, in this order, to
  \<open>photo.jpg\<close>, \<open>photo_DUP.jpg\<close> and \<open>photo_DUP_1.jpg\<close>.
\<close>

theorem three_photos_numbering:
  assumes media: "lower (path_suffix (file_path f1)) \<in> IMAGE_EXT \<union> VIDEO_EXT"
      "lower (path_suffix (file_path f2)) \<in> IMAGE_EXT \<union> VIDEO_EXT"
      "lower (path_suffix (file_path f3)) \<in> IMAGE_EXT \<union> VIDEO_EXT"
    and names: "base_name_of f1 = ''photo.jpg''" "base_name_of f2 = ''photo.jpg''"
      "base_name_of f3 = ''photo.jpg''"
    and dirs: "target_dir_of f1 = dir" "target_dir_of f2 = dir" "target_dir_of f3 = dir"
    and content: "digest f1 \<noteq> digest f2" "digest f1 \<noteq> digest f3" "digest f2 \<noteq> digest f3"
    and moved: "\<not> move_raises f1" "\<not> move_raises f2" "\<not> move_raises f3"
    and free: "path_join dir ''photo.jpg'' \<notin> set (disk w)"
      "path_join dir ''photo_DUP.jpg'' \<notin> set (disk w)"
      "path_join dir ''photo_DUP_1.jpg'' \<notin> set (disk w)"
  shows "map snd (moves (final_world (sort_media EXIFTOOL_EXISTS [f1, f2, f3] w)))
           = map snd (moves w)
             @ [path_join dir ''photo.jpg'', path_join dir ''photo_DUP.jpg'',
                path_join dir ''photo_DUP_1.jpg'']"
proof -
  let ?P = "tl (prefixes dir)"
  let ?A = "path_join dir ''photo.jpg''"
  let ?B = "path_join dir ''photo_DUP.jpg''"
  let ?C = "path_join dir ''photo_DUP_1.jpg''"
  have AB: "?A \<noteq> ?B" and AC: "?A \<noteq> ?C" and BC: "?B \<noteq> ?C"
    by (simp_all add: path_join_def)
  have src: "file_path f \<noteq> path_join dir x" for f x
    using source_not_target[of f f1 x] dirs(1) by simp
  \<comment> \<open>the first file\<close>
  from place_file_total[OF moved(1)] obtain s1 w1
    where p1: "place_file EXIFTOOL_EXISTS f1 Map.empty w = Inr (s1, w1)" by blast
  have "?A \<notin> set (disk w @ ?P)" using free(1) not_in_prefixes by simp
  then have t1: "resolve_target (disk w @ ?P) dir ''photo.jpg'' False = ?A"
    by (rule resolve_photo_free)
  from place_file_Inr[OF p1] t1
  have m1: "moves w1 = moves w @ [(file_path f1, ?A)]"
    and d1: "disk w1 = filter (\<lambda>p. p \<noteq> file_path f1) (disk w @ ?P) @ [?A]"
    and s1: "s1 = [digest f1 \<mapsto> ?A]"
    by (simp_all add: dirs names)
  \<comment> \<open>the second file\<close>
  from place_file_total[OF moved(2)] obtain s2 w2
    where p2: "place_file EXIFTOOL_EXISTS f2 s1 w1 = Inr (s2, w2)" by blast
  have n2: "s1 (digest f2) = None" using content(1) by (simp add: s1)
  have "?A \<in> set (disk w1 @ ?P)" by (simp add: d1)
  moreover have "?B \<notin> set (disk w1 @ ?P)"
    using free(2) not_in_prefixes AB by (auto simp: d1)
  ultimately have t2: "resolve_target (disk w1 @ ?P) dir ''photo.jpg'' False = ?B"
    by (rule resolve_photo_first)
  from place_file_Inr[OF p2] t2 n2
  have m2: "moves w2 = moves w1 @ [(file_path f2, ?B)]"
    and d2': "disk w2 = filter (\<lambda>p. p \<noteq> file_path f2) (disk w1 @ ?P) @ [?B]"
    and s2: "s2 = s1(digest f2 \<mapsto> ?B)"
    by (simp_all add: dirs names)
  \<comment> \<open>the third file\<close>
  from place_file_total[OF moved(3)] obtain s3 w3
    where p3: "place_file EXIFTOOL_EXISTS f3 s2 w2 = Inr (s3, w3)" by blast
  have n3: "s2 (digest f3) = None" using content(2,3) by (simp add: s1 s2)
  have "?A \<in> set (disk w2 @ ?P)" using src[of f2 "''photo.jpg''"] by (simp add: d1 d2')
  moreover have "?B \<in> set (disk w2 @ ?P)" by (simp add: d2')
  moreover have "?C \<notin> set (disk w2 @ ?P)"
    using free(3) not_in_prefixes AC BC by (auto simp: d1 d2')
  ultimately have t3: "resolve_target (disk w2 @ ?P) dir ''photo.jpg'' False = ?C"
    by (rule resolve_photo_second)
  from place_file_Inr[OF p3] t3 n3
  have m3: "moves w3 = moves w2 @ [(file_path f3, ?C)]"
    by (simp_all add: dirs names)
  have "sort_loop EXIFTOOL_EXISTS [f1, f2, f3] Map.empty w
          = sort_loop EXIFTOOL_EXISTS [f2, f3] s1 w1"
    by (rule sort_loop_step[OF media(1) p1])
  also have "\<dots> = sort_loop EXIFTOOL_EXISTS [f3] s2 w2"
    by (rule sort_loop_step[OF media(2) p2])
  also have "\<dots> = sort_loop EXIFTOOL_EXISTS [] s3 w3"
    by (rule sort_loop_step[OF media(3) p3])
  finally have "sort_media EXIFTOOL_EXISTS [f1, f2, f3] w = Completed w3"
    by (simp add: sort_media_def)
  then show ?thesis by (simp add: m1 m2 m3)
qed


theorem three_photos_numbering_witness:
  "map snd (moves (final_world (sort_media False
       [photo_in ''a'' ''h1'', photo_in ''b'' ''h2'', photo_in ''c'' ''h3'']
       (example_world (map file_path three_photos)))))
   = [path_join example_dir ''photo.jpg'', path_join example_dir ''photo_DUP.jpg'',
      path_join example_dir ''photo_DUP_1.jpg'']"
proof -
  have media: "lower (path_suffix (file_path (photo_in ''a'' ''h1''))) \<in> IMAGE_EXT \<union> VIDEO_EXT"
    "lower (path_suffix (file_path (photo_in ''b'' ''h2''))) \<in> IMAGE_EXT \<union> VIDEO_EXT"
    "lower (path_suffix (file_path (photo_in ''c'' ''h3''))) \<in> IMAGE_EXT \<union> VIDEO_EXT"
    by code_simp+
  have names: "base_name_of (photo_in ''a'' ''h1'') = ''photo.jpg''"
    "base_name_of (photo_in ''b'' ''h2'') = ''photo.jpg''"
    "base_name_of (photo_in ''c'' ''h3'') = ''photo.jpg''"
    by code_simp+
  have dirs: "target_dir_of (photo_in ''a'' ''h1'') = example_dir"
    "target_dir_of (photo_in ''b'' ''h2'') = example_dir"
    "target_dir_of (photo_in ''c'' ''h3'') = example_dir"
    by code_simp+
  have content: "digest (photo_in ''a'' ''h1'') \<noteq> digest (photo_in ''b'' ''h2'')"
    "digest (photo_in ''a'' ''h1'') \<noteq> digest (photo_in ''c'' ''h3'')"
    "digest (photo_in ''b'' ''h2'') \<noteq> digest (photo_in ''c'' ''h3'')"
    by (simp_all add: photo_in_def example_file_def)
  have moved: "\<not> move_raises (photo_in ''a'' ''h1'')" "\<not> move_raises (photo_in ''b'' ''h2'')"
    "\<not> move_raises (photo_in ''c'' ''h3'')"
    by (simp_all add: photo_in_def example_file_def)
  have free: "path_join example_dir ''photo.jpg'' \<notin> set (disk (example_world (map file_path three_photos)))"
    "path_join example_dir ''photo_DUP.jpg'' \<notin> set (disk (example_world (map file_path three_photos)))"
    "path_join example_dir ''photo_DUP_1.jpg'' \<notin> set (disk (example_world (map file_path three_photos)))"
    by code_simp+
  show ?thesis
    using three_photos_numbering[OF media names dirs content moved free, of False]
    by (simp add: example_world_def)
qed

theorem targets_free_and_distinct_witness:
  "resolve_target [path_join example_dir ''photo.jpg''] example_dir ''photo.jpg'' False
     \<notin> set [path_join example_dir ''photo.jpg'']
   \<and> distinct (map snd (moves (final_world (sort_media False three_photos
        (example_world (map file_path three_photos))))))"
  using targets_free_and_distinct[of "[path_join example_dir ''photo.jpg'']" example_dir "''photo.jpg''" False
      "example_world (map file_path three_photos)" False three_photos]
  by (simp add: example_world_def)

end
